theory Spec2Isabelle
  imports Complex_Main "HOL-Library.Multiset"
begin

section \<open>JavaScript numbers\<close>

text \<open>
  A JavaScript number is an IEEE-754 double. The model keeps the special values the
  code can produce and test (\<open>NaN\<close>, the two infinities, the negative zero) and takes
  every other value as a real number: \<open>Fin r\<close> is the finite number \<open>r\<close>, and
  \<open>Fin 0\<close> is the positive zero. The operations \<open>js_add\<close>, \<open>js_sub\<close>, \<open>js_mul\<close> and
  \<open>js_div\<close> of this section give the exact result on finite arguments. What a double
  operation returns is that result rounded: the rounded operations are defined in the
  section on rounding below.
\<close>

datatype jsnum = NaN | PInf | NInf | NZero | Fin real

text \<open>The sign bit: \<open>True\<close> for a negative number, the negative zero included.\<close>

fun sign :: "jsnum \<Rightarrow> bool" where
  "sign NInf = True"
| "sign NZero = True"
| "sign (Fin r) = (r < 0)"
| "sign _ = False"

fun is_zero :: "jsnum \<Rightarrow> bool" where
  "is_zero NZero = True"
| "is_zero (Fin r) = (r = 0)"
| "is_zero _ = False"

fun is_inf :: "jsnum \<Rightarrow> bool" where
  "is_inf PInf = True"
| "is_inf NInf = True"
| "is_inf _ = False"

text \<open>The real value of a finite number (0 for both zeros).\<close>

fun val :: "jsnum \<Rightarrow> real" where
  "val (Fin r) = r"
| "val _ = 0"

definition mk_zero :: "bool \<Rightarrow> jsnum" where
  "mk_zero s = (if s then NZero else Fin 0)"

definition mk_inf :: "bool \<Rightarrow> jsnum" where
  "mk_inf s = (if s then NInf else PInf)"

text \<open>A finite result \<open>r\<close>; when it is zero, the zero has the sign \<open>s\<close>.\<close>

definition mk_fin :: "bool \<Rightarrow> real \<Rightarrow> jsnum" where
  "mk_fin s r = (if r = 0 then mk_zero s else Fin r)"

text \<open>Unary minus flips the sign bit.\<close>

fun js_neg :: "jsnum \<Rightarrow> jsnum" where
  "js_neg NaN = NaN"
| "js_neg PInf = NInf"
| "js_neg NInf = PInf"
| "js_neg NZero = Fin 0"
| "js_neg (Fin r) = (if r = 0 then NZero else Fin (- r))"

text \<open>
  \<open>a + b\<close>: \<open>NaN\<close> is contagious, \<open>Infinity + -Infinity\<close> is \<open>NaN\<close>, the sum of two
  negative zeros is the negative zero, and every other zero sum is the positive zero.
\<close>

fun js_add :: "jsnum \<Rightarrow> jsnum \<Rightarrow> jsnum" where
  "js_add NaN b = NaN"
| "js_add a NaN = NaN"
| "js_add a b =
     (if is_inf a then (if is_inf b \<and> a \<noteq> b then NaN else a)
      else if is_inf b then b
      else if a = NZero \<and> b = NZero then NZero
      else Fin (val a + val b))"

definition js_sub :: "jsnum \<Rightarrow> jsnum \<Rightarrow> jsnum" where
  "js_sub a b = js_add a (js_neg b)"

text \<open>\<open>a * b\<close>: \<open>Infinity * 0\<close> is \<open>NaN\<close>; the sign of the result is the xor of the signs.\<close>

fun js_mul :: "jsnum \<Rightarrow> jsnum \<Rightarrow> jsnum" where
  "js_mul NaN b = NaN"
| "js_mul a NaN = NaN"
| "js_mul a b =
     (if is_inf a \<or> is_inf b
      then (if is_zero a \<or> is_zero b then NaN else mk_inf (sign a \<noteq> sign b))
      else mk_fin (sign a \<noteq> sign b) (val a * val b))"

text \<open>
  \<open>a / b\<close>: \<open>0 / 0\<close> and \<open>Infinity / Infinity\<close> are \<open>NaN\<close>, a non-zero number divided by
  a zero is an infinity, a finite number divided by an infinity is a zero.
\<close>

fun js_div :: "jsnum \<Rightarrow> jsnum \<Rightarrow> jsnum" where
  "js_div NaN b = NaN"
| "js_div a NaN = NaN"
| "js_div a b =
     (if is_inf a then (if is_inf b then NaN else mk_inf (sign a \<noteq> sign b))
      else if is_inf b then mk_zero (sign a \<noteq> sign b)
      else if is_zero b then (if is_zero a then NaN else mk_inf (sign a \<noteq> sign b))
      else mk_fin (sign a \<noteq> sign b) (val a / val b))"

text \<open>Comparisons: every comparison with \<open>NaN\<close> is false; the two zeros are equal.\<close>

fun js_lt :: "jsnum \<Rightarrow> jsnum \<Rightarrow> bool" where
  "js_lt NaN b = False"
| "js_lt a NaN = False"
| "js_lt a b =
     (if a = PInf \<or> b = NInf then False
      else if a = NInf \<or> b = PInf then True
      else val a < val b)"

fun js_le :: "jsnum \<Rightarrow> jsnum \<Rightarrow> bool" where
  "js_le NaN b = False"
| "js_le a NaN = False"
| "js_le a b =
     (if a = NInf \<or> b = PInf then True
      else if a = PInf \<or> b = NInf then False
      else val a \<le> val b)"

definition js_gt :: "jsnum \<Rightarrow> jsnum \<Rightarrow> bool" where
  "js_gt a b = js_lt b a"

subsection \<open>The \<open>Math\<close> builtins the code calls\<close>

text \<open>A finite number that is an odd integer (the case \<open>Math.pow\<close> singles out).\<close>

definition is_int :: "jsnum \<Rightarrow> bool" where
  "is_int a = (\<not> is_inf a \<and> a \<noteq> NaN \<and> of_int \<lfloor>val a\<rfloor> = val a)"

definition is_odd_int :: "jsnum \<Rightarrow> bool" where
  "is_odd_int a = (is_int a \<and> odd \<lfloor>val a\<rfloor>)"

text \<open>\<open>Math.exp\<close>.\<close>

fun js_exp :: "jsnum \<Rightarrow> jsnum" where
  "js_exp NaN = NaN"
| "js_exp PInf = PInf"
| "js_exp NInf = Fin 0"
| "js_exp a = Fin (exp (val a))"

text \<open>\<open>Math.log\<close>: \<open>NaN\<close> below zero, \<open>-Infinity\<close> at both zeros.\<close>

fun js_log :: "jsnum \<Rightarrow> jsnum" where
  "js_log NaN = NaN"
| "js_log PInf = PInf"
| "js_log NInf = NaN"
| "js_log NZero = NInf"
| "js_log (Fin r) = (if r < 0 then NaN else if r = 0 then NInf else Fin (ln r))"

text \<open>\<open>Math.sqrt\<close>: \<open>NaN\<close> below zero; the root of a zero is that zero.\<close>

fun js_sqrt :: "jsnum \<Rightarrow> jsnum" where
  "js_sqrt NaN = NaN"
| "js_sqrt PInf = PInf"
| "js_sqrt NInf = NaN"
| "js_sqrt NZero = NZero"
| "js_sqrt (Fin r) = (if r < 0 then NaN else Fin (sqrt r))"

text \<open>\<open>Math.floor\<close>: the special values and the zeros are returned as they are.\<close>

fun js_floor :: "jsnum \<Rightarrow> jsnum" where
  "js_floor (Fin r) = Fin (of_int \<lfloor>r\<rfloor>)"
| "js_floor a = a"

text \<open>\<open>Math.sin\<close>: \<open>NaN\<close> at the infinities.\<close>

fun js_sin :: "jsnum \<Rightarrow> jsnum" where
  "js_sin (Fin r) = Fin (sin r)"
| "js_sin NZero = NZero"
| "js_sin a = NaN"

text \<open>
  \<open>Math.pow(base, exponent)\<close>, case by case as ECMAScript lists them: a \<open>NaN\<close>
  exponent gives \<open>NaN\<close>; a zero exponent gives 1 (also for a \<open>NaN\<close> base); then the
  infinite and zero bases, the infinite exponents, and for finite non-zero arguments
  \<open>NaN\<close> when the base is negative and the exponent is not an integer.
\<close>

definition js_pow :: "jsnum \<Rightarrow> jsnum \<Rightarrow> jsnum" where
  "js_pow b e =
     (if e = NaN then NaN
      else if is_zero e then Fin 1
      else if b = NaN then NaN
      else if b = PInf then (if js_lt (Fin 0) e then PInf else Fin 0)
      else if b = NInf then
        (if js_lt (Fin 0) e then (if is_odd_int e then NInf else PInf)
         else (if is_odd_int e then NZero else Fin 0))
      else if b = Fin 0 then (if js_lt (Fin 0) e then Fin 0 else PInf)
      else if b = NZero then
        (if js_lt (Fin 0) e then (if is_odd_int e then NZero else Fin 0)
         else (if is_odd_int e then NInf else PInf))
      else if e = PInf then
        (if 1 < \<bar>val b\<bar> then PInf else if \<bar>val b\<bar> = 1 then NaN else Fin 0)
      else if e = NInf then
        (if 1 < \<bar>val b\<bar> then Fin 0 else if \<bar>val b\<bar> = 1 then NaN else PInf)
      else if is_int e then Fin (val b powi \<lfloor>val e\<rfloor>)
      else if val b < 0 then NaN
      else Fin (val b powr val e))"

text \<open>The constants \<open>Math.PI\<close> and \<open>Math.E\<close>.\<close>

definition js_PI :: jsnum where
  "js_PI = Fin pi"

definition js_E :: jsnum where
  "js_E = Fin (exp 1)"

text \<open>
  A value that may be \<open>undefined\<close> (\<open>None\<close>) used as a number: \<open>undefined\<close> converts
  to \<open>NaN\<close>. Reading an array past its end gives \<open>undefined\<close>.
\<close>

definition to_num :: "jsnum option \<Rightarrow> jsnum" where
  "to_num v = (case v of None \<Rightarrow> NaN | Some a \<Rightarrow> a)"

definition elem_at :: "jsnum list \<Rightarrow> nat \<Rightarrow> jsnum" where
  "elem_at p i = (if i < length p then p ! i else NaN)"

text \<open>A loop counter or an array length used as a number.\<close>

definition of_len :: "nat \<Rightarrow> jsnum" where
  "of_len n = Fin (real n)"

section \<open>Rounding to a double\<close>

text \<open>
  The integer nearest to \<open>q\<close>, the even one of the two when \<open>q\<close> lies halfway.
\<close>

definition round_even :: "real \<Rightarrow> int" where
  "round_even q =
     (let f = \<lfloor>q\<rfloor>; d = q - of_int f
      in if d < 1 / 2 then f else if 1 / 2 < d then f + 1 else if even f then f else f + 1)"

text \<open>
  The exponent of the binade of \<open>x\<close>, not below that of the subnormal numbers: the
  doubles with exponent \<open>e\<close> are the multiples of \<open>2 powi (e - 52)\<close>.
\<close>

definition expo :: "real \<Rightarrow> int" where
  "expo x = max \<lfloor>log 2 \<bar>x\<bar>\<rfloor> (- 1022)"

text \<open>The magnitude of a positive real, rounded to the nearest multiple of its binade.\<close>

definition round_mag :: "real \<Rightarrow> real" where
  "round_mag x = of_int (round_even (x / 2 powi (expo x - 52))) * 2 powi (expo x - 52)"

text \<open>
  The double nearest to the real \<open>x\<close> (round to nearest, ties to even): an infinity when
  the rounded magnitude reaches \<open>2 ^ 1024\<close>, a zero of the sign of \<open>x\<close> when it is 0.
\<close>

definition round_double :: "real \<Rightarrow> jsnum" where
  "round_double x =
     (if x = 0 then Fin 0
      else (let m = round_mag \<bar>x\<bar>
            in if 2 ^ 1024 \<le> m then mk_inf (x < 0)
               else mk_fin (x < 0) (if x < 0 then - m else m)))"

fun fl :: "jsnum \<Rightarrow> jsnum" where
  "fl (Fin r) = round_double r"
| "fl a = a"

text \<open>
  The operations as a double computes them: the exact result, rounded. \<open>Math.log\<close>,
  \<open>Math.exp\<close>, \<open>Math.sin\<close> and \<open>Math.pow\<close> are approximated by the engine; the model
  takes the rounded real value, and the statements below use of them only what
  ECMAScript fixes (the special cases, and the sign of a logarithm).
\<close>

definition fl_add :: "jsnum \<Rightarrow> jsnum \<Rightarrow> jsnum" where
  "fl_add a b = fl (js_add a b)"

definition fl_sub :: "jsnum \<Rightarrow> jsnum \<Rightarrow> jsnum" where
  "fl_sub a b = fl (js_sub a b)"

definition fl_mul :: "jsnum \<Rightarrow> jsnum \<Rightarrow> jsnum" where
  "fl_mul a b = fl (js_mul a b)"

definition fl_div :: "jsnum \<Rightarrow> jsnum \<Rightarrow> jsnum" where
  "fl_div a b = fl (js_div a b)"

definition fl_log :: "jsnum \<Rightarrow> jsnum" where
  "fl_log a = fl (js_log a)"

definition fl_exp :: "jsnum \<Rightarrow> jsnum" where
  "fl_exp a = fl (js_exp a)"

definition fl_sqrt :: "jsnum \<Rightarrow> jsnum" where
  "fl_sqrt a = fl (js_sqrt a)"

definition fl_sin :: "jsnum \<Rightarrow> jsnum" where
  "fl_sin a = fl (js_sin a)"

definition fl_pow :: "jsnum \<Rightarrow> jsnum \<Rightarrow> jsnum" where
  "fl_pow b e = fl (js_pow b e)"

section \<open>Regression fitters\<close>

text \<open>A data point is the pair \<open>[x, y]\<close>; a data set is an array of data points.\<close>

type_synonym point = "jsnum \<times> jsnum"

text \<open>
  \<open>linear\<close>: the loop accumulates \<open>sX\<close>, \<open>sY\<close>, \<open>sXX\<close> and \<open>sXY\<close> from 0 over the
  data in order; the result is the array \<open>[intercept, gradient]\<close>.
\<close>

definition linear_reg :: "point list \<Rightarrow> jsnum list" where
  "linear_reg data =
     (let sX = foldl (\<lambda>s d. js_add s (fst d)) (Fin 0) data;
          sY = foldl (\<lambda>s d. js_add s (snd d)) (Fin 0) data;
          sXX = foldl (\<lambda>s d. js_add s (js_mul (fst d) (fst d))) (Fin 0) data;
          sXY = foldl (\<lambda>s d. js_add s (js_mul (fst d) (snd d))) (Fin 0) data;
          len = of_len (length data);
          gradient = js_div (js_sub (js_mul len sXY) (js_mul sX sY))
                            (js_sub (js_mul len sXX) (js_mul sX sX));
          intercept = js_sub (js_div sY len) (js_div (js_mul gradient sX) len)
      in [intercept, gradient])"

text \<open>
  \<open>exponential\<close>: six sums accumulated from 0 over the data in order; the result is
  the array \<open>[a, b]\<close> of \<open>y = a * e^(bx)\<close>. \<open>sum[0]\<close> is accumulated and not used.
\<close>

definition exponential :: "point list \<Rightarrow> jsnum list" where
  "exponential data =
     (let sum1 = foldl (\<lambda>s d. js_add s (snd d)) (Fin 0) data;
          sum2 = foldl (\<lambda>s d. js_add s (js_mul (js_mul (fst d) (fst d)) (snd d))) (Fin 0) data;
          sum3 = foldl (\<lambda>s d. js_add s (js_mul (snd d) (js_log (snd d)))) (Fin 0) data;
          sum4 = foldl (\<lambda>s d. js_add s (js_mul (js_mul (fst d) (snd d)) (js_log (snd d))))
                   (Fin 0) data;
          sum5 = foldl (\<lambda>s d. js_add s (js_mul (fst d) (snd d))) (Fin 0) data;
          denominator = js_sub (js_mul sum1 sum2) (js_mul sum5 sum5);
          a = js_exp (js_div (js_sub (js_mul sum2 sum3) (js_mul sum5 sum4)) denominator);
          b = js_div (js_sub (js_mul sum1 sum4) (js_mul sum5 sum3)) denominator
      in [a, b])"

subsection \<open>The matrix capability\<close>

type_synonym matrix = "jsnum list list"

datatype error = MatrixNotInvertible

text \<open>
  Modelled from the spec: the module \<open>./matrix\<close> that \<open>polynomial\<close> imports is not among
  the sources. The spec gives it as \<open>transpose(M) -> M'\<close>: the rows of the result are the
  columns of \<open>M\<close>.
\<close>

definition transpose_mx :: "matrix \<Rightarrow> matrix" where
  "transpose_mx M =
     (case M of [] \<Rightarrow> []
      | r # _ \<Rightarrow> map (\<lambda>j. map (\<lambda>row. elem_at row j) M) [0..<length r])"

text \<open>
  Modelled from the spec: \<open>product(M1, M2, ...) -> M'\<close> is sequential matrix
  multiplication, from the left. An entry of a product of two matrices is the sum, from
  0, of the products of a row of the first with a column of the second.
\<close>

definition product2 :: "matrix \<Rightarrow> matrix \<Rightarrow> matrix" where
  "product2 A B =
     map (\<lambda>row. map (\<lambda>j. foldl (\<lambda>s k. js_add s (js_mul (elem_at row k) (elem_at (B ! k) j)))
                               (Fin 0) [0..<length B])
                     [0..<(case B of [] \<Rightarrow> 0 | r # _ \<Rightarrow> length r)]) A"

fun product_mx :: "matrix list \<Rightarrow> matrix" where
  "product_mx [] = []"
| "product_mx (M # Ms) = foldl product2 M Ms"

text \<open>A list without its entry at index \<open>i\<close>.\<close>

definition drop_nth :: "nat \<Rightarrow> 'a list \<Rightarrow> 'a list" where
  "drop_nth i xs = take i xs @ drop (Suc i) xs"

text \<open>
  Modelled from the spec: \<open>inverse(M) -> M'\<close> fails when \<open>M\<close> is singular. The spec
  names no algorithm; the model takes a matrix as singular when its determinant (by
  expansion along the first row) is a zero, and otherwise gives the inverse as the
  transposed cofactors divided by the determinant.
\<close>

fun det :: "matrix \<Rightarrow> jsnum" where
  "det [] = Fin 1"
| "det (r # rows) =
     foldl js_add (Fin 0)
       (map (\<lambda>j. let t = js_mul (elem_at r j) (det (map (drop_nth j) rows))
                 in if even j then t else js_neg t)
            [0..<length r])"

definition cofactor :: "matrix \<Rightarrow> nat \<Rightarrow> nat \<Rightarrow> jsnum" where
  "cofactor M i j =
     (let t = det (map (drop_nth j) (drop_nth i M))
      in if even (i + j) then t else js_neg t)"

definition inverse_mx :: "matrix \<Rightarrow> error + matrix" where
  "inverse_mx M =
     (let d = det M
      in if is_zero d then Inl MatrixNotInvertible
         else Inr (map (\<lambda>i. map (\<lambda>j. js_div (cofactor M j i) d) [0..<length M])
                       [0..<length M]))"

subsection \<open>Polynomial regression\<close>

text \<open>
  \<open>polynomial(data, order = 2)\<close>. \<open>list(order + 1)\<close> of the core library is the array
  \<open>[0, ..., order]\<close>, so a row of \<open>X\<close> is \<open>[x^0, ..., x^order]\<close>. A failure of
  \<open>inverse\<close> is not caught: it leaves \<open>polynomial\<close>.
\<close>

definition polynomial :: "point list \<Rightarrow> nat option \<Rightarrow> error + jsnum list" where
  "polynomial data order_arg =
     (let order = (case order_arg of None \<Rightarrow> 2 | Some n \<Rightarrow> n);
          X = map (\<lambda>d. map (\<lambda>p. js_pow (fst d) (of_len p)) [0..<order + 1]) data;
          XT = transpose_mx X;
          y = map (\<lambda>d. [snd d]) data;
          XTX = product_mx [XT, X]
      in case inverse_mx XTX of
           Inl e \<Rightarrow> Inl e
         | Inr inv_mx \<Rightarrow> Inr (map (\<lambda>x. elem_at x 0) (product_mx [inv_mx, XT, y])))"

section \<open>Regression coefficient\<close>

text \<open>\<open>square\<close> of the core library: \<open>x * x\<close>.\<close>

definition square :: "jsnum \<Rightarrow> jsnum" where
  "square x = js_mul x x"

text \<open>
  \<open>coefficient(data, fn)\<close>: three \<open>reduce\<close> calls from 0. \<open>fn\<close> may return
  \<open>undefined\<close>, which the subtraction converts to \<open>NaN\<close>.
\<close>

definition coefficient :: "point list \<Rightarrow> (jsnum \<Rightarrow> jsnum option) \<Rightarrow> jsnum" where
  "coefficient data f =
     (let total = foldl (\<lambda>sum d. js_add sum (snd d)) (Fin 0) data;
          mean = js_div total (of_len (length data));
          ssyy = foldl (\<lambda>sum d. js_add sum (square (js_sub (snd d) mean))) (Fin 0) data;
          sse = foldl (\<lambda>sum d. js_add sum (square (js_sub (snd d) (to_num (f (fst d))))))
                  (Fin 0) data
      in js_sub (Fin 1) (js_div sse ssyy))"

section \<open>Multi-regression\<close>

text \<open>An entry of the catalog \<open>types\<close>: its name, its fitter and its prediction function.\<close>

record entry =
  name :: string
  regression :: "point list \<Rightarrow> error + jsnum list"
  fn :: "jsnum list \<Rightarrow> jsnum \<Rightarrow> jsnum"

definition types :: "entry list" where
  "types =
     [\<lparr>name = ''linear'',
       regression = (\<lambda>data. Inr (linear_reg data)),
       fn = (\<lambda>p x. js_add (elem_at p 0) (js_mul x (elem_at p 1)))\<rparr>,
      \<lparr>name = ''quadratic'',
       regression = (\<lambda>data. polynomial data None),
       fn = (\<lambda>p x. js_add (js_add (elem_at p 0) (js_mul x (elem_at p 1)))
                          (js_mul (js_mul x x) (elem_at p 2)))\<rparr>,
      \<lparr>name = ''cubic'',
       regression = (\<lambda>data. polynomial data (Some 3)),
       fn = (\<lambda>p x. js_add (js_add (js_add (elem_at p 0) (js_mul x (elem_at p 1)))
                                  (js_mul (js_mul x x) (elem_at p 2)))
                          (js_mul (js_mul (js_mul x x) x) (elem_at p 3)))\<rparr>,
      \<lparr>name = ''exponential'',
       regression = (\<lambda>data. Inr (exponential data)),
       fn = (\<lambda>p x. js_mul (elem_at p 0) (js_pow js_E (js_mul (elem_at p 1) x)))\<rparr>]"

text \<open>
  The object \<open>find\<close> returns. \<open>type\<close> is a name or \<open>null\<close> (\<open>None\<close>); \<open>fn\<close> may return
  \<open>undefined\<close> (\<open>None\<close>); the null model has no \<open>coeff\<close> property.
\<close>

record model =
  mtype :: "string option"
  mfn :: "jsnum \<Rightarrow> jsnum option"
  params :: "jsnum list"
  coeff :: "jsnum option"

text \<open>\<open>noop\<close> of the core library: the function that does nothing and returns \<open>undefined\<close>.\<close>

definition noop :: "jsnum \<Rightarrow> jsnum option" where
  "noop x = None"

definition null_model :: model where
  "null_model = \<lparr>mtype = None, mfn = noop, params = [], coeff = None\<rparr>"

text \<open>
  The loop \<open>for (let t of types)\<close>: \<open>Inr (Some m)\<close> is the \<open>return\<close> inside the loop,
  \<open>Inr None\<close> is the loop running to its end, \<open>Inl e\<close> an exception of a fitter.
\<close>

fun find_loop :: "entry list \<Rightarrow> point list \<Rightarrow> jsnum \<Rightarrow> error + model option" where
  "find_loop [] data threshold = Inr None"
| "find_loop (t # ts) data threshold =
     (case regression t data of
        Inl e \<Rightarrow> Inl e
      | Inr ps \<Rightarrow>
          (let f = (\<lambda>x. Some (fn t ps x));
               c = coefficient data f
           in if js_gt c threshold
              then Inr (Some \<lparr>mtype = Some (name t), mfn = f, params = ps, coeff = Some c\<rparr>)
              else find_loop ts data threshold))"

text \<open>\<open>find(data, threshold = 0.9)\<close>.\<close>

definition find_model :: "point list \<Rightarrow> jsnum option \<Rightarrow> error + model" where
  "find_model data threshold_arg =
     (let threshold = (case threshold_arg of None \<Rightarrow> Fin 0.9 | Some t \<Rightarrow> t)
      in if 1 < length data
         then (case find_loop types data threshold of
                 Inl e \<Rightarrow> Inl e
               | Inr (Some m) \<Rightarrow> Inr m
               | Inr None \<Rightarrow> Inr null_model)
         else Inr null_model)"

section \<open>Random numbers\<close>

text \<open>
  \<open>Math.random()\<close> returns a number in the interval from 0 (included) to 1 (excluded).
  A draw is such a number; a function that calls \<open>Math.random()\<close> takes its draws as
  arguments.
\<close>

typedef draw = "{u::real. 0 \<le> u \<and> u < 1}"
  by (rule exI [of _ 0]) simp

definition random :: "draw \<Rightarrow> jsnum" where
  "random u = Fin (Rep_draw u)"

text \<open>
  A number used as an array index. The indices the code computes are non-negative
  integers.
\<close>

definition to_index :: "jsnum \<Rightarrow> nat" where
  "to_index a = nat \<lfloor>val a\<rfloor>"

subsection \<open>Array shuffle\<close>

text \<open>
  The loop of \<open>shuffle\<close>, \<open>for (let i = a.length - 1; i > 0; --i)\<close>, on the array \<open>a\<close>.
  \<open>rnd k\<close> is the draw of the \<open>k\<close>-th call of \<open>Math.random()\<close>. The destructuring
  assignment reads \<open>a[j]\<close> and \<open>a[i]\<close>, then writes \<open>a[i]\<close>, then \<open>a[j]\<close>.
\<close>

fun shuffle_loop :: "(nat \<Rightarrow> draw) \<Rightarrow> nat \<Rightarrow> nat \<Rightarrow> 'a list \<Rightarrow> 'a list" where
  "shuffle_loop rnd k 0 a = a"
| "shuffle_loop rnd k (Suc m) a =
     (let i = Suc m;
          j = to_index (js_floor (js_mul (random (rnd k)) (of_len (i + 1))))
      in shuffle_loop rnd (Suc k) m (a[i := a ! j, j := a ! i]))"

text \<open>
  Arrays are objects with an identity. The store is the list of the arrays allocated so
  far, and the address of an array is its position there. \<open>a.slice(0)\<close> allocates a copy
  at the next free address, and the loop works on that copy. \<open>shuffle\<close> returns the
  store after the call and the address of the result; a call on an address that holds no
  array has no result.
\<close>

type_synonym 'a store = "'a list list"

definition shuffle :: "(nat \<Rightarrow> draw) \<Rightarrow> 'a store \<Rightarrow> nat \<Rightarrow> ('a store \<times> nat) option" where
  "shuffle rnd h p =
     (if p < length h
      then (let a = h ! p
            in Some (h @ [shuffle_loop rnd 0 (length a - 1) a], length h))
      else None)"

subsection \<open>Weighted choice\<close>

text \<open>
  A weight collection, an array or an object, as the list of its entries (key, weight)
  in iteration order; the keys are distinct, and the key of an array entry is its index.
\<close>

type_synonym 'k collection = "('k \<times> jsnum) list"

definition array_entries :: "jsnum list \<Rightarrow> nat collection" where
  "array_entries xs = zip [0..<length xs] xs"

text \<open>
  \<open>some(obj, f)\<close> of the core library calls \<open>f\<close> on the entries in order and returns the
  first result that is not \<open>undefined\<close>, or \<open>undefined\<close> (\<open>None\<close>) when there is none.
  Here \<open>f\<close> adds the weight to \<open>curr\<close> (\<open>cur\<close> below) and returns the key when \<open>rand <= curr\<close>.
\<close>

fun some_loop :: "'k collection \<Rightarrow> jsnum \<Rightarrow> jsnum \<Rightarrow> 'k option" where
  "some_loop [] rand cur = None"
| "some_loop ((i, x) # rest) rand cur =
     (let cur' = js_add cur x
      in if js_le rand cur' then Some i else some_loop rest rand cur')"

text \<open>\<open>each(obj, f)\<close> of the core library calls \<open>f\<close> on the entries in order.\<close>

definition total_weight :: "'k collection \<Rightarrow> jsnum" where
  "total_weight obj = foldl (\<lambda>total e. js_add total (snd e)) (Fin 0) obj"

text \<open>
  \<open>weighted(obj)\<close>. \<open>TOTAL_CACHE\<close> is keyed by the identity of \<open>obj\<close>: \<open>cached\<close> is its
  entry for this object before the call (\<open>None\<close> when it has none), and the second
  component of the result is its entry after the call.
\<close>

definition weighted :: "jsnum option \<Rightarrow> 'k collection \<Rightarrow> draw \<Rightarrow> 'k option \<times> jsnum" where
  "weighted cached obj u =
     (let total = (case cached of Some t \<Rightarrow> t | None \<Rightarrow> total_weight obj);
          rand = js_mul (random u) total
      in (some_loop obj rand (Fin 0), total))"

subsection \<open>Smart random number generator\<close>

text \<open>
  \<open>SMART_RANDOM_CACHE\<close> maps an identifier to its array of counters. The counters start
  at 1 and change by 1, so they are integers.
\<close>

type_synonym smart_cache = "string \<rightharpoonup> int list"

text \<open>
  \<open>smart(n, id)\<close>. \<open>fresh\<close> is what \<open>uid()\<close> would return; an \<open>id\<close> that is missing or
  the empty string is replaced by it. The array of squares passed to \<open>weighted\<close> is new,
  so \<open>TOTAL_CACHE\<close> has no entry for it. The decrement writes into the array of the
  cache; when the counter is then \<open><= 0\<close>, a new array replaces it. When \<open>weighted\<close>
  returns \<open>undefined\<close>, no counter changes and \<open>smart\<close> returns \<open>undefined\<close>.
\<close>

definition smart :: "string \<Rightarrow> draw \<Rightarrow> nat \<Rightarrow> string option \<Rightarrow> smart_cache
    \<Rightarrow> nat option \<times> smart_cache" where
  "smart fresh u n id_arg C =
     (let ident = (case id_arg of None \<Rightarrow> fresh | Some s \<Rightarrow> if s = [] then fresh else s);
          cache = (case C ident of None \<Rightarrow> replicate n 1 | Some cs \<Rightarrow> cs);
          x = fst (weighted None (array_entries (map (\<lambda>x. Fin (of_int (x * x))) cache)) u)
      in case x of
           None \<Rightarrow> (None, C(ident \<mapsto> cache))
         | Some i \<Rightarrow>
             (let cache' = cache[i := cache ! i - 1]
              in (Some i,
                  if cache' ! i \<le> 0 then C(ident \<mapsto> map (\<lambda>x. x + 1) cache')
                  else C(ident \<mapsto> cache'))))"

text \<open>Consecutive calls \<open>smart(n, id)\<close> with the same arguments, one per draw.\<close>

fun smart_calls :: "string \<Rightarrow> draw list \<Rightarrow> nat \<Rightarrow> string \<Rightarrow> smart_cache \<Rightarrow> smart_cache" where
  "smart_calls fresh [] n ident C = C"
| "smart_calls fresh (u # us) n ident C =
     smart_calls fresh us n ident (snd (smart fresh u n (Some ident) C))"

subsection \<open>Geometric distribution\<close>

text \<open>
  \<open>geometric(p = 0.5)\<close>; the result \<open>None\<close> is \<open>null\<close>. The difference \<open>1 - p\<close>, the
  logarithms and the quotient are the rounded ones.
\<close>

definition geometric :: "draw \<Rightarrow> jsnum option \<Rightarrow> jsnum option" where
  "geometric u p_arg =
     (let p = (case p_arg of None \<Rightarrow> Fin 0.5 | Some p \<Rightarrow> p)
      in if js_le p (Fin 0) \<or> js_gt p (Fin 1) then None
         else Some (js_floor (fl_div (fl_log (random u)) (fl_log (fl_sub (Fin 1) p)))))"

subsection \<open>PDFs and CDFs\<close>

text \<open>\<open>normalPDF(x, m = 1, v = 0)\<close>.\<close>

definition normalPDF :: "jsnum \<Rightarrow> jsnum option \<Rightarrow> jsnum option \<Rightarrow> jsnum" where
  "normalPDF x m_arg v_arg =
     (let m = (case m_arg of None \<Rightarrow> Fin 1 | Some m \<Rightarrow> m);
          v = (case v_arg of None \<Rightarrow> Fin 0 | Some v \<Rightarrow> v)
      in js_div (js_exp (js_div (js_neg (square (js_sub x m))) (js_mul (Fin 2) v)))
                (js_sqrt (js_mul (js_mul (Fin 2) js_PI) v)))"

definition G :: nat where
  "G = 7"

text \<open>The table \<open>P\<close>: a decimal literal is the double nearest to it.\<close>

definition P :: "jsnum list" where
  "P = map round_double
        [0.99999999999980993,
         676.5203681218851,
         - 1259.1392167224028,
         771.32342877765313,
         - 176.61502916214059,
         12.507343278686905,
         - 0.13857109526572012,
         9.9843695780195716 / 10 ^ 6,
         1.5056327351493116 / 10 ^ 7]"

text \<open>
  The branch of \<open>gamma\<close> without recursion, on the argument \<open>z\<close> as passed: \<open>z -= 1\<close>,
  the sum over \<open>i = 1, ..., G + 1\<close>, and the product, with the rounded operations.
\<close>

definition lanczos :: "jsnum \<Rightarrow> jsnum" where
  "lanczos z0 =
     (let z = fl_sub z0 (Fin 1);
          x = foldl (\<lambda>x i. fl_add x (fl_div (elem_at P i) (fl_add z (of_len i))))
                (elem_at P 0) [1..<G + 2];
          t = fl_add (fl_add z (of_len G)) (Fin 0.5)
      in fl_mul (fl_mul (fl_mul (fl_sqrt (fl_mul (Fin 2) js_PI))
                                (fl_pow t (fl_add z (Fin 0.5))))
                        (fl_exp (js_neg t)))
                x)"

text \<open>
  \<open>gamma(z)\<close>, with a counter: the second component of the result is the number of
  times the call takes the branch \<open>z < 0.5\<close>, which is the one that calls \<open>gamma\<close>
  again. The recursion is not structural: \<open>None\<close> is a call that does not return.
\<close>

partial_function (option) gamma_count :: "jsnum \<Rightarrow> (jsnum \<times> nat) option" where
  "gamma_count z =
     (if js_lt z (Fin 0.5)
      then Option.bind (gamma_count (fl_sub (Fin 1) z))
             (\<lambda>r. Some (fl_div js_PI (fl_mul (fl_sin (fl_mul js_PI z)) (fst r)), Suc (snd r)))
      else Some (lanczos z, 0))"

definition gamma :: "jsnum \<Rightarrow> jsnum option" where
  "gamma z = map_option fst (gamma_count z)"

section \<open>Definitions for the statements\<close>

text \<open>
  The selection as the specification words it: fit \<open>linear\<close>, then \<open>quadratic\<close>
  (polynomial of order 2), then \<open>cubic\<close> (polynomial of order 3), then \<open>exponential\<close>;
  return the first model whose coefficient exceeds the threshold, and the null model when
  none does. A fitter that fails ends the selection with its error. \<open>r2\<close> is the
  coefficient of an entry's prediction function at the fitted parameters, and \<open>fitted\<close>
  the model returned for it.
\<close>

definition r2 :: "entry \<Rightarrow> point list \<Rightarrow> jsnum list \<Rightarrow> jsnum" where
  "r2 t data ps = coefficient data (\<lambda>x. Some (fn t ps x))"

definition fitted :: "entry \<Rightarrow> point list \<Rightarrow> jsnum list \<Rightarrow> model" where
  "fitted t data ps =
     \<lparr>mtype = Some (name t), mfn = (\<lambda>x. Some (fn t ps x)), params = ps,
      coeff = Some (r2 t data ps)\<rparr>"

definition select_first :: "point list \<Rightarrow> jsnum \<Rightarrow> error + model" where
  "select_first data threshold =
     (let pl = linear_reg data
      in if js_gt (r2 (types ! 0) data pl) threshold then Inr (fitted (types ! 0) data pl)
         else case polynomial data (Some 2) of
           Inl e \<Rightarrow> Inl e
         | Inr pq \<Rightarrow>
             if js_gt (r2 (types ! 1) data pq) threshold then Inr (fitted (types ! 1) data pq)
             else case polynomial data (Some 3) of
               Inl e \<Rightarrow> Inl e
             | Inr pc \<Rightarrow>
                 if js_gt (r2 (types ! 2) data pc) threshold
                 then Inr (fitted (types ! 2) data pc)
                 else (let pe = exponential data
                       in if js_gt (r2 (types ! 3) data pe) threshold
                          then Inr (fitted (types ! 3) data pe)
                          else Inr null_model))"

text \<open>
  A collection whose weights are finite numbers, given by a list of reals.
\<close>

definition fin_weights :: "('k \<times> real) list \<Rightarrow> 'k collection" where
  "fin_weights ws = map (\<lambda>(k, w). (k, Fin w)) ws"

text \<open>
  The counters of an identifier in the cache (\<open>n\<close> counters of 1 before the first call),
  the invariant of the claim, and the counters after the draw of \<open>x\<close>: the drawn counter
  is decremented, and when it is then \<open><= 0\<close> every counter is incremented.
\<close>

definition counters_ok :: "nat \<Rightarrow> int list \<Rightarrow> bool" where
  "counters_ok n cs = (length cs = n \<and> (\<forall>c \<in> set cs. 1 \<le> c))"

definition counters :: "nat \<Rightarrow> string \<Rightarrow> smart_cache \<Rightarrow> int list" where
  "counters n ident C = (case C ident of None \<Rightarrow> replicate n 1 | Some cs \<Rightarrow> cs)"

definition after_draw :: "int list \<Rightarrow> nat \<Rightarrow> int list" where
  "after_draw cs x =
     (let d = cs[x := cs ! x - 1] in if d ! x \<le> 0 then map (\<lambda>c. c + 1) d else d)"

text \<open>
  A number that is finite (a zero of either sign, or a non-zero real), and a data set
  of finite points given by pairs of reals.
\<close>

definition finite_num :: "jsnum \<Rightarrow> bool" where
  "finite_num a = (a = NZero \<or> a = Fin (val a))"

definition fin_points :: "(real \<times> real) list \<Rightarrow> point list" where
  "fin_points pts = map (\<lambda>(x, y). (Fin x, Fin y)) pts"

text \<open>
  The closed form of the least-squares line through the points: the slope
  \<open>(n \<Sigma>xy - \<Sigma>x \<Sigma>y) / (n \<Sigma>x\<^sup>2 - (\<Sigma>x)\<^sup>2)\<close> and the intercept, the mean of \<open>y\<close> minus the
  slope times the mean of \<open>x\<close>.
\<close>

definition denominator :: "(real \<times> real) list \<Rightarrow> real" where
  "denominator pts =
     real (length pts) * (\<Sum>(x, y)\<leftarrow>pts. x * x) - (\<Sum>(x, y)\<leftarrow>pts. x) * (\<Sum>(x, y)\<leftarrow>pts. x)"

definition slope :: "(real \<times> real) list \<Rightarrow> real" where
  "slope pts =
     (real (length pts) * (\<Sum>(x, y)\<leftarrow>pts. x * y) - (\<Sum>(x, y)\<leftarrow>pts. x) * (\<Sum>(x, y)\<leftarrow>pts. y))
       / denominator pts"

definition intercept :: "(real \<times> real) list \<Rightarrow> real" where
  "intercept pts =
     (\<Sum>(x, y)\<leftarrow>pts. y) / real (length pts)
       - slope pts * ((\<Sum>(x, y)\<leftarrow>pts. x) / real (length pts))"

section \<open>Properties\<close>

text \<open>The definitions that evaluate arithmetic on concrete numbers.\<close>

lemmas js_defs =
  of_len_def js_sub_def mk_fin_def mk_zero_def mk_inf_def js_gt_def square_def to_num_def
  elem_at_def

subsection \<open>Linear regression\<close>

lemma finite_num_Fin [simp]: "finite_num (Fin r)" "finite_num NZero"
  by (simp_all add: finite_num_def)

lemma mk_fin_finite: "finite_num (mk_fin s r)" "val (mk_fin s r) = r"
  by (simp_all add: mk_fin_def mk_zero_def finite_num_def)

lemma finite_add: "finite_num a \<Longrightarrow> finite_num b \<Longrightarrow>
    finite_num (js_add a b) \<and> val (js_add a b) = val a + val b"
  by (cases a; cases b) (auto simp: finite_num_def)

lemma finite_sub: "finite_num a \<Longrightarrow> finite_num b \<Longrightarrow>
    finite_num (js_sub a b) \<and> val (js_sub a b) = val a - val b"
  by (cases a; cases b) (auto simp: finite_num_def js_sub_def)

lemma finite_mul: "finite_num a \<Longrightarrow> finite_num b \<Longrightarrow>
    finite_num (js_mul a b) \<and> val (js_mul a b) = val a * val b"
  by (cases a; cases b) (auto simp: finite_num_def mk_fin_def mk_zero_def)

lemma finite_div: "finite_num a \<Longrightarrow> finite_num b \<Longrightarrow> val b \<noteq> 0 \<Longrightarrow>
    finite_num (js_div a b) \<and> val (js_div a b) = val a / val b"
  by (cases a; cases b) (auto simp: finite_num_def mk_fin_def mk_zero_def)

lemma foldl_finite:
  assumes "\<And>d. d \<in> set data \<Longrightarrow> finite_num (f d)" and "finite_num s"
  shows "finite_num (foldl (\<lambda>s d. js_add s (f d)) s data) \<and>
         val (foldl (\<lambda>s d. js_add s (f d)) s data) = val s + sum_list (map (\<lambda>d. val (f d)) data)"
  using assms
proof (induction data arbitrary: s)
  case Nil
  then show ?case by simp
next
  case (Cons d data)
  have fd: "finite_num (f d)" using Cons.prems(1) by simp
  note a = finite_add [OF Cons.prems(2) fd]
  have "\<And>e. e \<in> set data \<Longrightarrow> finite_num (f e)" using Cons.prems(1) by simp
  from Cons.IH [OF this a [THEN conjunct1]] a [THEN conjunct2]
  show ?case by (simp add: add.assoc)
qed

lemma sum_fin_points:
  assumes "\<And>x y. finite_num (f (Fin x, Fin y))"
  shows "finite_num (foldl (\<lambda>s d. js_add s (f d)) (Fin 0) (fin_points pts)) \<and>
         val (foldl (\<lambda>s d. js_add s (f d)) (Fin 0) (fin_points pts)) =
           sum_list (map (\<lambda>(x, y). val (f (Fin x, Fin y))) pts)"
proof -
  have "\<And>d. d \<in> set (fin_points pts) \<Longrightarrow> finite_num (f d)"
    using assms by (auto simp: fin_points_def)
  from foldl_finite [of "fin_points pts" f "Fin 0", OF this]
  show ?thesis by (simp add: fin_points_def comp_def case_prod_unfold)
qed

lemma linear_reg_formula:
  fixes pts :: "(real \<times> real) list"
  defines "n \<equiv> real (length pts)"
    and "sx \<equiv> sum_list (map fst pts)" and "sy \<equiv> sum_list (map snd pts)"
    and "sxx \<equiv> sum_list (map (\<lambda>(x, y). x * x) pts)"
    and "sxy \<equiv> sum_list (map (\<lambda>(x, y). x * y) pts)"
  assumes den: "n * sxx - sx * sx \<noteq> 0"
  shows "list_all finite_num (linear_reg (fin_points pts)) \<and>
         map val (linear_reg (fin_points pts)) =
           [sy / n - ((n * sxy - sx * sy) / (n * sxx - sx * sx)) * sx / n,
            (n * sxy - sx * sy) / (n * sxx - sx * sx)]"
proof -
  let ?d = "fin_points pts"
  define SX where "SX = foldl (\<lambda>s d. js_add s (fst d)) (Fin 0) ?d"
  define SY where "SY = foldl (\<lambda>s d. js_add s (snd d)) (Fin 0) ?d"
  define SXX where "SXX = foldl (\<lambda>s d. js_add s (js_mul (fst d) (fst d))) (Fin 0) ?d"
  define SXY where "SXY = foldl (\<lambda>s d. js_add s (js_mul (fst d) (snd d))) (Fin 0) ?d"
  define L where "L = of_len (length ?d)"
  have SX: "finite_num SX" "val SX = sx"
    using sum_fin_points [of fst pts] by (simp_all add: SX_def sx_def case_prod_unfold)
  have SY: "finite_num SY" "val SY = sy"
    using sum_fin_points [of snd pts] by (simp_all add: SY_def sy_def case_prod_unfold)
  have SXX: "finite_num SXX" "val SXX = sxx"
    using sum_fin_points [of "\<lambda>d. js_mul (fst d) (fst d)" pts]
    by (simp_all add: SXX_def sxx_def mk_fin_finite)
  have SXY: "finite_num SXY" "val SXY = sxy"
    using sum_fin_points [of "\<lambda>d. js_mul (fst d) (snd d)" pts]
    by (simp_all add: SXY_def sxy_def mk_fin_finite)
  have L: "finite_num L" "val L = n"
    by (simp_all add: L_def of_len_def n_def fin_points_def)
  have n0: "n \<noteq> 0"
  proof
    assume "n = 0"
    then have "pts = []" by (simp add: n_def)
    with den show False by (simp add: sx_def sxx_def n_def)
  qed
  define num where "num = js_sub (js_mul L SXY) (js_mul SX SY)"
  define dn where "dn = js_sub (js_mul L SXX) (js_mul SX SX)"
  have num: "finite_num num" "val num = n * sxy - sx * sy"
    unfolding num_def using finite_sub finite_mul L SX SY SXY by simp_all
  have dn: "finite_num dn" "val dn = n * sxx - sx * sx"
    unfolding dn_def using finite_sub finite_mul L SX SXX by simp_all
  define g where "g = js_div num dn"
  have g: "finite_num g" "val g = (n * sxy - sx * sy) / (n * sxx - sx * sx)"
    unfolding g_def using finite_div [OF num(1) dn(1)] den num(2) dn(2) by simp_all
  define ic where "ic = js_sub (js_div SY L) (js_div (js_mul g SX) L)"
  have q1: "finite_num (js_div SY L)" "val (js_div SY L) = sy / n"
    using finite_div [OF SY(1) L(1)] n0 L(2) SY(2) by simp_all
  have m1: "finite_num (js_mul g SX)" "val (js_mul g SX) = val g * sx"
    using finite_mul [OF g(1) SX(1)] SX(2) by simp_all
  have q2: "finite_num (js_div (js_mul g SX) L)" "val (js_div (js_mul g SX) L) = val g * sx / n"
    using finite_div [OF m1(1) L(1)] n0 L(2) m1(2) by simp_all
  have ic: "finite_num ic" "val ic = sy / n - val g * sx / n"
    unfolding ic_def using finite_sub [OF q1(1) q2(1)] q1(2) q2(2) by simp_all
  have "linear_reg ?d = [ic, g]"
    by (simp add: linear_reg_def Let_def ic_def g_def num_def dn_def L_def SX_def SY_def SXX_def SXY_def)
  with ic g show ?thesis by simp
qed

text \<open>
  Claim C5. Fitting \<open>linear\<close> on the exact data set \<open>[(1,3),(2,5),(3,7)]\<close> returns the
  parameter vector \<open>[1, 2]\<close>: intercept 1, slope 2. Every intermediate value of this
  run is a small integer, so the result is exact. In general, on finite points whose
  \<open>n \<Sigma>x\<^sup>2 - (\<Sigma>x)\<^sup>2\<close> is not zero, the result is finite and is the intercept and the slope
  of the closed form.
\<close>

theorem linear_roundtrip:
  "linear_reg [(Fin 1, Fin 3), (Fin 2, Fin 5), (Fin 3, Fin 7)] = [Fin 1, Fin 2] \<and>
   (denominator pts \<noteq> 0 \<longrightarrow>
      list_all finite_num (linear_reg (fin_points pts)) \<and>
      map val (linear_reg (fin_points pts)) = [intercept pts, slope pts])"
proof (intro conjI impI)
  show "linear_reg [(Fin 1, Fin 3), (Fin 2, Fin 5), (Fin 3, Fin 7)] = [Fin 1, Fin 2]"
    by (simp add: linear_reg_def of_len_def js_sub_def mk_fin_def mk_zero_def)
next
  assume "denominator pts \<noteq> 0"
  then have "real (length pts) * (\<Sum>(x, y)\<leftarrow>pts. x * x) - sum_list (map fst pts) * sum_list (map fst pts) \<noteq> 0"
    by (simp add: denominator_def case_prod_unfold)
  from linear_reg_formula [OF this]
  show "list_all finite_num (linear_reg (fin_points pts))"
    and "map val (linear_reg (fin_points pts)) = [intercept pts, slope pts]"
    by (simp_all add: intercept_def slope_def denominator_def case_prod_unfold)
qed

theorem linear_roundtrip_witness:
  "denominator [(1, 3), (2, 5), (3, 7)] \<noteq> 0 \<and>
   intercept [(1, 3), (2, 5), (3, 7)] = 1 \<and> slope [(1, 3), (2, 5), (3, 7)] = 2 \<and>
   map val (linear_reg (fin_points [(1, 3), (2, 5), (3, 7)])) = [1, 2]"
  using linear_roundtrip [of "[(1, 3), (2, 5), (3, 7)]"]
  by (simp add: denominator_def slope_def intercept_def)

lemma rep_draw_bounds: "0 \<le> Rep_draw u" "Rep_draw u < 1"
  using Rep_draw [of u] by auto

subsection \<open>Rounding\<close>

lemma expo_normal:
  assumes "2 powi k \<le> \<bar>x\<bar>" and "\<bar>x\<bar> < 2 powi (k + 1)" and "- 1022 \<le> k"
  shows "expo x = k"
proof -
  have pos: "0 < \<bar>x\<bar>" using assms(1) zero_less_power_int [of "2::real" k] by linarith
  have 1: "(2::real) powr real_of_int k = 2 powi k"
    by (rule powr_real_of_int') simp_all
  have 2: "(2::real) powr (real_of_int k + 1) = 2 powi (k + 1)"
    using powr_real_of_int' [of "2::real" "k + 1"] by simp
  have "\<lfloor>log 2 \<bar>x\<bar>\<rfloor> = k"
    using floor_log_eq_powr_iff [of "\<bar>x\<bar>" 2 k] pos assms(1,2) 1 2 by simp
  with assms(3) show ?thesis by (simp add: expo_def)
qed

lemma round_even_ge: "of_int N \<le> q \<Longrightarrow> N \<le> round_even q"
proof -
  assume "of_int N \<le> q"
  then have "N \<le> \<lfloor>q\<rfloor>" by (simp add: le_floor_iff)
  then show ?thesis by (simp add: round_even_def Let_def)
qed

lemma round_even_le: "q \<le> of_int N \<Longrightarrow> round_even q \<le> N"
proof -
  assume a: "q \<le> of_int N"
  then have f: "\<lfloor>q\<rfloor> \<le> N" by (simp add: floor_le_iff) 
  show ?thesis
  proof (cases "\<lfloor>q\<rfloor> = N")
    case True
    with a have "q = of_int N" using of_int_floor_le [of q] by linarith
    then show ?thesis by (simp add: round_even_def Let_def)
  next
    case False
    with f have "\<lfloor>q\<rfloor> + 1 \<le> N" by simp
    with f show ?thesis by (simp add: round_even_def Let_def)
  qed
qed

lemma round_mag_bounds:
  assumes "2 powi k \<le> x" and "x < 2 powi (k + 1)" and "- 1022 \<le> k"
  shows "2 powi k \<le> round_mag x" and "round_mag x \<le> 2 powi (k + 1)"
proof -
  have xp: "0 < x" using assms(1) zero_less_power_int [of "2::real" k] by linarith
  then have ax: "\<bar>x\<bar> = x" by simp
  have e: "expo x = k" using expo_normal [of k x] assms ax by simp
  let ?u = "(2::real) powi (k - 52)"
  have up: "0 < ?u" by simp
  have k1: "(2::real) powi k = 2 ^ 52 * ?u"
    using power_int_add [of "2::real" 52 "k - 52"] by simp
  have k2: "(2::real) powi (k + 1) = 2 ^ 53 * ?u"
    using power_int_add [of "2::real" 53 "k - 52"] by (simp add: add.commute)
  have q1: "of_int (2 ^ 52) \<le> x / ?u"
    using assms(1) up by (simp add: k1 pos_le_divide_eq)
  have q2: "x / ?u \<le> of_int (2 ^ 53)"
    using assms(2) up by (simp add: k2 pos_divide_le_eq)
  from round_even_ge [OF q1] have n1: "(2 ^ 52 :: real) \<le> of_int (round_even (x / ?u))"
    by (metis of_int_le_iff of_int_numeral of_int_power)
  from round_even_le [OF q2] have n2: "of_int (round_even (x / ?u)) \<le> (2 ^ 53 :: real)"
    by (metis of_int_le_iff of_int_numeral of_int_power)
  show "2 powi k \<le> round_mag x"
    unfolding round_mag_def e k1 using n1 up by (intro mult_right_mono) simp_all
  show "round_mag x \<le> 2 powi (k + 1)"
    unfolding round_mag_def e k2 using n2 up by (intro mult_right_mono) simp_all
qed

lemma round_double_above_half:
  assumes "1 / 2 < y"
  shows "round_double y = PInf \<or> (\<exists>m. round_double y = Fin m \<and> 1 / 2 \<le> m)"
proof -
  define k where "k = \<lfloor>log 2 y\<rfloor>"
  have yp: "0 < y" using assms by simp
  have 1: "\<And>j. (2::real) powr real_of_int j = 2 powi j"
    by (rule powr_real_of_int') simp_all
  have "2 powr real_of_int k \<le> y \<and> y < 2 powr (real_of_int k + 1)"
    using floor_log_eq_powr_iff [of y 2 k] yp by (simp add: k_def)
  then have b: "2 powi k \<le> y" "y < 2 powi (k + 1)"
    using 1 [of k] 1 [of "k + 1"] by simp_all
  have lt: "(2::real) powi (- 1) < 2 powi (k + 1)" using assms b(2) by simp
  have k: "- 1 \<le> k"
  proof (rule ccontr)
    assume "\<not> - 1 \<le> k"
    then have "k + 1 \<le> - 1" by simp
    then have "(2::real) powi (k + 1) \<le> 2 powi (- 1)"
      by (intro power_int_increasing) simp_all
    with lt show False by simp
  qed
  then have k': "- 1022 \<le> k" by simp
  note m = round_mag_bounds [OF b k']
  have "(2::real) powi (- 1) \<le> 2 powi k" using k by (intro power_int_increasing) simp_all
  with m(1) have h: "1 / 2 \<le> round_mag y" by simp
  show ?thesis
  proof (cases "2 ^ 1024 \<le> round_mag y")
    case True
    with yp show ?thesis by (simp add: round_double_def mk_inf_def Let_def)
  next
    case False
    with yp h have "round_double y = Fin (round_mag y)"
      by (simp add: round_double_def mk_fin_def Let_def)
    with h show ?thesis by simp
  qed
qed


lemma round_mag_eval:
  "expo x = k \<Longrightarrow> round_mag x = of_int (round_even (x / 2 powi (k - 52))) * 2 powi (k - 52)"
  by (simp add: round_mag_def)

lemma round_double_pos:
  "0 < x \<Longrightarrow> round_mag x = m \<Longrightarrow> 0 < m \<Longrightarrow> m < 2 ^ 1024 \<Longrightarrow> round_double x = Fin m"
  by (simp add: round_double_def mk_fin_def Let_def)

lemma round_one_minus: "round_double (1 - 1 / 2 ^ 60) = Fin 1"
proof -
  have e: "expo (1 - 1 / 2 ^ 60) = - 1"
    by (rule expo_normal) simp_all
  have m: "round_mag (1 - 1 / 2 ^ 60) = 1"
    unfolding round_mag_eval [OF e] by (simp add: round_even_def Let_def)
  show ?thesis by (rule round_double_pos [OF _ m]) simp_all
qed

lemma round_half_plus: "round_double (1 / 2 + 1 / 2 ^ 54) = Fin (1 / 2)"
proof -
  have e: "expo (1 / 2 + 1 / 2 ^ 54) = - 1"
    by (rule expo_normal) simp_all
  have m: "round_mag (1 / 2 + 1 / 2 ^ 54) = 1 / 2"
    unfolding round_mag_eval [OF e] by (simp add: round_even_def Let_def)
  show ?thesis by (rule round_double_pos [OF _ m]) simp_all
qed

lemma round_half_minus: "round_double (1 / 2 - 1 / 2 ^ 54) = Fin (1 / 2 - 1 / 2 ^ 54)"
proof -
  have e: "expo (1 / 2 - 1 / 2 ^ 54) = - 2"
    by (rule expo_normal) simp_all
  have m: "round_mag (1 / 2 - 1 / 2 ^ 54) = 1 / 2 - 1 / 2 ^ 54"
    unfolding round_mag_eval [OF e] by (simp add: round_even_def Let_def)
  show ?thesis by (rule round_double_pos [OF _ m]) simp_all
qed


lemma round_double_normal_neg:
  assumes "x < 0" and "2 powi (- 1022) \<le> \<bar>x\<bar>" and "\<bar>x\<bar> < 2 powi 1023"
  shows "\<exists>m. round_double x = Fin (- m) \<and> 0 < m"
proof -
  define k where "k = \<lfloor>log 2 \<bar>x\<bar>\<rfloor>"
  have xp: "0 < \<bar>x\<bar>" using assms(1) by simp
  have 1: "\<And>j. (2::real) powr real_of_int j = 2 powi j"
    by (rule powr_real_of_int') simp_all
  have "2 powr real_of_int k \<le> \<bar>x\<bar> \<and> \<bar>x\<bar> < 2 powr (real_of_int k + 1)"
    using floor_log_eq_powr_iff [of "\<bar>x\<bar>" 2 k] xp by (simp add: k_def)
  then have b: "2 powi k \<le> \<bar>x\<bar>" "\<bar>x\<bar> < 2 powi (k + 1)"
    using 1 [of k] 1 [of "k + 1"] by simp_all
  have lo: "- 1022 \<le> k"
  proof (rule ccontr)
    assume "\<not> - 1022 \<le> k"
    then have "k + 1 \<le> - 1022" by simp
    then have "(2::real) powi (k + 1) \<le> 2 powi (- 1022)"
      by (intro power_int_increasing) simp_all
    with b(2) assms(2) show False by linarith
  qed
  have hi: "k \<le> 1022"
  proof (rule ccontr)
    assume "\<not> k \<le> 1022"
    then have "1023 \<le> k" by simp
    then have "(2::real) powi 1023 \<le> 2 powi k"
      by (intro power_int_increasing) simp_all
    with b(1) assms(3) show False by linarith
  qed
  note m = round_mag_bounds [OF b lo]
  have kp: "(0::real) < 2 powi k" by simp
  with m(1) have mp: "0 < round_mag \<bar>x\<bar>" by linarith
  have "(2::real) powi (k + 1) \<le> 2 powi 1023" using hi by (intro power_int_increasing) simp_all
  also have "\<dots> < (2::real) ^ 1024" by simp
  finally have "(2::real) powi (k + 1) < 2 ^ 1024" .
  with m(2) have ml: "round_mag \<bar>x\<bar> < 2 ^ 1024" by linarith
  from assms(1) mp ml have "round_double x = Fin (- round_mag \<bar>x\<bar>)"
    by (simp add: round_double_def mk_fin_def Let_def)
  with mp show ?thesis by blast
qed

lemma ln_half_bounds: "ln (1 / 2 :: real) < 0" "1 / 2 \<le> \<bar>ln (1 / 2 :: real)\<bar>" "\<bar>ln (1 / 2 :: real)\<bar> < 2"
proof -
  have e: "exp (1 / 2 :: real) \<le> 2"
    using exp_bound [of "1 / 2 :: real"] by (simp add: power2_eq_square)
  have l: "ln (1 / 2 :: real) = - ln 2" by (simp add: ln_div)
  have lo: "1 / 2 \<le> ln (2 :: real)" using e ln_ge_iff [of "2 :: real" "1 / 2"] by simp
  have hi: "ln (2 :: real) < 2" by (rule ln_less_self) simp
  show "ln (1 / 2 :: real) < 0" using lo l by simp
  show "1 / 2 \<le> \<bar>ln (1 / 2 :: real)\<bar>" using lo l by simp
  show "\<bar>ln (1 / 2 :: real)\<bar> < 2" using lo hi l by simp
qed

lemma log_half: "\<exists>m. fl_log (Fin (1 / 2)) = Fin (- m) \<and> 0 < m"
proof -
  have "(2::real) powi (- 1022) \<le> 2 powi (- 1)" by (intro power_int_increasing) simp_all
  then have a: "2 powi (- 1022) \<le> \<bar>ln (1 / 2 :: real)\<bar>" using ln_half_bounds(2) by simp
  have "(2::real) powi 1 \<le> 2 powi 1023" by (intro power_int_increasing) simp_all
  then have b: "\<bar>ln (1 / 2 :: real)\<bar> < 2 powi 1023" using ln_half_bounds(3) by simp
  from round_double_normal_neg [OF ln_half_bounds(1) a b]
  show ?thesis by (simp add: fl_log_def)
qed

lemma one_minus_small: "fl_sub (Fin 1) (Fin (1 / 2 ^ 60)) = Fin 1"
proof -
  have "js_sub (Fin 1) (Fin (1 / 2 ^ 60)) = Fin (1 - 1 / 2 ^ 60)" by (simp add: js_sub_def)
  then show ?thesis by (simp only: fl_sub_def fl.simps round_one_minus)
qed

lemma round_half: "round_double (1 / 2) = Fin (1 / 2)"
proof -
  have e: "expo (1 / 2) = - 1"
    by (rule expo_normal) simp_all
  have m: "round_mag (1 / 2) = 1 / 2"
    unfolding round_mag_eval [OF e] by (simp add: round_even_def Let_def)
  show ?thesis by (rule round_double_pos [OF _ m]) simp_all
qed

lemma round_one: "round_double 1 = Fin 1"
proof -
  have e: "expo 1 = 0"
    by (rule expo_normal) simp_all
  have m: "round_mag 1 = 1"
    unfolding round_mag_eval [OF e] by (simp add: round_even_def Let_def)
  show ?thesis by (rule round_double_pos [OF _ m]) simp_all
qed

lemma round_3_4: "round_double (3 / 4) = Fin (3 / 4)"
proof -
  have e: "expo (3 / 4) = - 1"
    by (rule expo_normal) simp_all
  have m: "round_mag (3 / 4) = 3 / 4"
    unfolding round_mag_eval [OF e] by (simp add: round_even_def Let_def)
  show ?thesis by (rule round_double_pos [OF _ m]) simp_all
qed

subsection \<open>The Gamma function\<close>

lemma reflect_not_below:
  assumes "js_lt z (Fin 0.5)"
  shows "js_le (Fin 0.5) (fl_sub (Fin 1) z) \<and> \<not> js_lt (fl_sub (Fin 1) z) (Fin 0.5)"
proof (cases z)
  case (Fin r)
  with assms have r: "r < 1 / 2" by simp
  have s: "js_sub (Fin 1) (Fin r) = Fin (1 - r)" by (simp add: js_sub_def)
  from r have "1 / 2 < 1 - r" by simp
  from round_double_above_half [OF this] show ?thesis
    by (auto simp: Fin fl_sub_def s)
next
  case NZero
  have s: "js_sub (Fin 1) NZero = Fin 1" by (simp add: js_sub_def)
  show ?thesis by (simp add: NZero fl_sub_def s round_one)
qed (use assms in \<open>auto simp: fl_sub_def js_sub_def\<close>)

text \<open>
  Claim C9 as stated fails at \<open>z = 0.49999999999999994\<close>, the double \<open>1/2 - 2^-54\<close>:
  \<open>z < 0.5\<close> holds, and the double \<open>1 - z\<close> is exactly 0.5 (the real difference lies
  halfway between two doubles and is rounded to the even one), which is not greater than
  0.5.
\<close>

theorem gamma_reflection_at_half:
  "js_lt (Fin (1 / 2 - 1 / 2 ^ 54)) (Fin 0.5) \<and>
   round_double (1 / 2 - 1 / 2 ^ 54) = Fin (1 / 2 - 1 / 2 ^ 54) \<and>
   fl_sub (Fin 1) (Fin (1 / 2 - 1 / 2 ^ 54)) = Fin 0.5 \<and>
   \<not> js_gt (fl_sub (Fin 1) (Fin (1 / 2 - 1 / 2 ^ 54))) (Fin 0.5)"
proof -
  have "js_sub (Fin 1) (Fin (1 / 2 - 1 / 2 ^ 54)) = Fin (1 / 2 + 1 / 2 ^ 54)"
    by (simp add: js_sub_def)
  then have s: "fl_sub (Fin 1) (Fin (1 / 2 - 1 / 2 ^ 54)) = Fin (1 / 2)"
    by (simp only: fl_sub_def fl.simps round_half_plus)
  have l: "js_lt (Fin (1 / 2 - 1 / 2 ^ 54)) (Fin 0.5)" by simp
  have g: "\<not> js_gt (Fin (1 / 2)) (Fin 0.5)" by (simp add: js_gt_def)
  have h: "Fin (1 / 2) = Fin 0.5" by simp
  from l round_half_minus s g h show ?thesis by (simp only: simp_thms)
qed

text \<open>
  Claim C9, amended. \<open>gamma(z)\<close> returns for every argument and takes the reflection
  branch at most once: that branch is taken only when \<open>z < 0.5\<close>, its argument \<open>1 - z\<close>,
  as the double subtraction gives it, is then not less than 0.5 (at least 0.5), and so
  the inner call returns from the branch without recursion.
\<close>

theorem gamma_single_reflection:
  "(js_lt z (Fin 0.5) \<longrightarrow>
      js_le (Fin 0.5) (fl_sub (Fin 1) z) \<and> \<not> js_lt (fl_sub (Fin 1) z) (Fin 0.5)) \<and>
   gamma_count z =
     Some (if js_lt z (Fin 0.5)
           then (fl_div js_PI (fl_mul (fl_sin (fl_mul js_PI z)) (lanczos (fl_sub (Fin 1) z))), 1)
           else (lanczos z, 0)) \<and>
   (\<exists>g k. gamma_count z = Some (g, k) \<and> k \<le> 1 \<and> gamma z = Some g)"
proof (cases "js_lt z (Fin 0.5)")
  case True
  note nb = reflect_not_below [OF True]
  then have inner: "gamma_count (fl_sub (Fin 1) z) = Some (lanczos (fl_sub (Fin 1) z), 0)"
    by (subst gamma_count.simps) simp
  have "gamma_count z =
      Some (fl_div js_PI (fl_mul (fl_sin (fl_mul js_PI z)) (lanczos (fl_sub (Fin 1) z))), 1)"
    using True by (subst gamma_count.simps) (simp add: inner)
  with True nb show ?thesis by (simp add: gamma_def)
next
  case False
  then have "gamma_count z = Some (lanczos z, 0)"
    by (subst gamma_count.simps) simp
  with False show ?thesis by (simp add: gamma_def)
qed

theorem gamma_single_reflection_witness:
  "js_lt (Fin (1 / 4)) (Fin 0.5) \<and> fl_sub (Fin 1) (Fin (1 / 4)) = Fin (3 / 4) \<and>
   js_le (Fin 0.5) (Fin (3 / 4)) \<and>
   gamma_count (Fin (1 / 4)) =
     Some (fl_div js_PI (fl_mul (fl_sin (fl_mul js_PI (Fin (1 / 4)))) (lanczos (Fin (3 / 4)))), 1)"
proof -
  have "js_sub (Fin 1) (Fin (1 / 4)) = Fin (3 / 4)" by (simp add: js_sub_def)
  then have s: "fl_sub (Fin 1) (Fin (1 / 4)) = Fin (3 / 4)"
    by (simp only: fl_sub_def fl.simps round_3_4)
  have l: "js_lt (Fin (1 / 4)) (Fin 0.5)" by simp
  from gamma_single_reflection [of "Fin (1 / 4)"] l
  show ?thesis unfolding s by simp
qed

text \<open>
  Claim C10. The default arguments of \<open>normalPDF\<close> are \<open>m = 1\<close> and \<open>v = 0\<close>; with them
  the divisor \<open>2 * v\<close> is zero, and \<open>normalPDF(x)\<close> is \<open>NaN\<close> for every \<open>x\<close>.
\<close>

theorem normalPDF_default_NaN:
  "normalPDF x None None = normalPDF x (Some (Fin 1)) (Some (Fin 0)) \<and>
   js_mul (Fin 2) (Fin 0) = Fin 0 \<and>
   normalPDF x None None = NaN"
  by (cases x) (auto simp: normalPDF_def square_def js_sub_def mk_fin_def mk_zero_def mk_inf_def js_PI_def)

subsection \<open>The geometric distribution\<close>

text \<open>
  Claim C8 as stated fails at \<open>p = 2^-60\<close> and the draw \<open>1/2\<close>: the double \<open>1 - p\<close> is 1,
  its logarithm is 0, and \<open>geometric\<close> returns \<open>-Infinity\<close>, while
  \<open>floor (ln U / ln (1 - p))\<close> is a positive integer.
\<close>

theorem geometric_small_p:
  "geometric (Abs_draw (1 / 2)) (Some (Fin (1 / 2 ^ 60))) = Some NInf"
proof -
  obtain m where m: "fl_log (Fin (1 / 2)) = Fin (- m)" "0 < m" using log_half by blast
  have l1: "fl_log (Fin 1) = Fin 0" by (simp add: fl_log_def round_double_def)
  have d: "fl_div (Fin (- m)) (Fin 0) = NInf" using m(2) by (simp add: fl_div_def mk_inf_def)
  have g: "\<not> (js_le (Fin (1 / 2 ^ 60)) (Fin 0) \<or> js_gt (Fin (1 / 2 ^ 60)) (Fin 1))"
    by (simp add: js_gt_def)
  have r: "random (Abs_draw (1 / 2)) = Fin (1 / 2)" by (simp add: random_def Abs_draw_inverse)
  show ?thesis
    unfolding geometric_def Let_def option.case if_not_P [OF g] r one_minus_small l1 m(1) d
    by simp
qed

text \<open>
  Claim C8, amended. \<open>geometric(p)\<close> returns \<open>null\<close> exactly when \<open>p <= 0\<close> or \<open>p > 1\<close>; for
  \<open>0 < p <= 1\<close> and every draw \<open>U\<close> it never returns \<open>null\<close>: it returns the number that
  \<open>Math.floor(Math.log(U) / Math.log(1 - p))\<close> gives in double arithmetic.
\<close>

theorem geometric_sentinel:
  "(geometric u (Some p) = None \<longleftrightarrow> js_le p (Fin 0) \<or> js_gt p (Fin 1)) \<and>
   (js_lt (Fin 0) p \<and> js_le p (Fin 1) \<longrightarrow>
      geometric u (Some p) =
        Some (js_floor (fl_div (fl_log (random u)) (fl_log (fl_sub (Fin 1) p)))))"
proof (intro conjI impI)
  show "geometric u (Some p) = None \<longleftrightarrow> js_le p (Fin 0) \<or> js_gt p (Fin 1)"
    by (simp add: geometric_def)
next
  assume a: "js_lt (Fin 0) p \<and> js_le p (Fin 1)"
  then have "\<not> (js_le p (Fin 0) \<or> js_gt p (Fin 1))"
    by (cases p) (auto simp: js_gt_def)
  then show "geometric u (Some p) =
        Some (js_floor (fl_div (fl_log (random u)) (fl_log (fl_sub (Fin 1) p))))"
    by (simp add: geometric_def)
qed

theorem geometric_sentinel_witness:
  "js_lt (Fin 0) (Fin (1 / 2)) \<and> js_le (Fin (1 / 2)) (Fin 1) \<and>
   geometric (Abs_draw (1 / 2)) (Some (Fin (1 / 2))) = Some (Fin 1) \<and>
   geometric (Abs_draw (1 / 2)) (Some (Fin 0)) = None \<and>
   geometric (Abs_draw (1 / 2)) (Some (Fin 2)) = None"
proof -
  obtain m where m: "fl_log (Fin (1 / 2)) = Fin (- m)" "0 < m" using log_half by blast
  have s: "fl_sub (Fin 1) (Fin (1 / 2)) = Fin (1 / 2)"
    by (simp add: fl_sub_def js_sub_def round_half)
  have d: "fl_div (Fin (- m)) (Fin (- m)) = Fin 1"
    using m(2) by (simp add: fl_div_def mk_fin_def round_one)
  have r: "random (Abs_draw (1 / 2)) = Fin (1 / 2)" by (simp add: random_def Abs_draw_inverse)
  have h: "js_lt (Fin 0) (Fin (1 / 2)) \<and> js_le (Fin (1 / 2)) (Fin 1)" by simp
  note t = geometric_sentinel [of "Abs_draw (1 / 2)"]
  from t [of "Fin (1 / 2)"] h
  have 1: "geometric (Abs_draw (1 / 2)) (Some (Fin (1 / 2))) = Some (Fin 1)"
    unfolding r s m(1) d by simp
  from t [of "Fin 0"] have 2: "geometric (Abs_draw (1 / 2)) (Some (Fin 0)) = None" by simp
  from t [of "Fin 2"] have 3: "geometric (Abs_draw (1 / 2)) (Some (Fin 2)) = None"
    by (simp add: js_gt_def)
  from h 1 2 3 show ?thesis by blast
qed

text \<open>
  Claim C4. On a data set with fewer than 2 points, and for every threshold, \<open>find\<close>
  returns the null model as an ordinary value: its type is \<open>null\<close>, its function is
  \<open>noop\<close>, its parameter array is empty.
\<close>

theorem find_degenerate:
  "length data < 2 \<Longrightarrow>
     find_model data threshold = Inr null_model \<and>
     mtype null_model = None \<and> mfn null_model x = None \<and> params null_model = [] \<and>
     coeff null_model = None"
  by (simp add: find_model_def null_model_def noop_def)

theorem find_degenerate_witness:
  "length [(Fin 1, Fin 1)] < 2 \<and> find_model [(Fin 1, Fin 1)] None = Inr null_model \<and>
   find_model [] (Some (Fin 0)) = Inr null_model"
  using find_degenerate [of "[(Fin 1, Fin 1)]" None] find_degenerate [of "[]" "Some (Fin 0)"]
  by simp

lemma polynomial_default: "polynomial data None = polynomial data (Some 2)"
  by (simp add: polynomial_def)

text \<open>
  Claim C2, amended. On a data set with at least 2 points, and for every threshold,
  \<open>find\<close> is the selection \<open>select_first\<close>: the entries linear, quadratic, cubic,
  exponential are fitted in this order, the first whose coefficient exceeds the threshold
  is returned, and the null model when none does; a polynomial fit that fails before an
  entry has qualified ends \<open>find\<close> with its error.
\<close>

theorem find_first_qualifying:
  "1 < length data \<Longrightarrow>
     map name types = [''linear'', ''quadratic'', ''cubic'', ''exponential''] \<and>
     find_model data threshold_arg =
       select_first data (case threshold_arg of None \<Rightarrow> Fin 0.9 | Some t \<Rightarrow> t)"
  by (simp add: find_model_def select_first_def types_def r2_def fitted_def Let_def
      polynomial_default split: sum.splits)

lemma lin1: "linear_reg [(Fin 1, Fin 1), (Fin 2, Fin 4), (Fin 3, Fin 9), (Fin 4, Fin 16)] = [Fin (-5), Fin 5]"
  by (simp add: linear_reg_def js_defs)

text \<open>
  Claim C1 as stated fails: on \<open>[(1,1),(2,4),(3,9),(4,16)]\<close> with the default threshold
  \<open>find\<close> returns a model, and its type is not \<open>quadratic\<close>.
\<close>

theorem find_squares_not_quadratic:
  "\<not> isl (find_model [(Fin 1, Fin 1), (Fin 2, Fin 4), (Fin 3, Fin 9), (Fin 4, Fin 16)] None) \<and>
   mtype (projr (find_model [(Fin 1, Fin 1), (Fin 2, Fin 4), (Fin 3, Fin 9), (Fin 4, Fin 16)] None))
     \<noteq> Some ''quadratic''"
  by (simp add: find_model_def types_def lin1 Let_def coefficient_def js_defs)

text \<open>
  Claim C1, amended. On \<open>[(1,1),(2,4),(3,9),(4,16)]\<close> with the default threshold 0.9,
  \<open>find\<close> returns the model of type \<open>linear\<close> with the parameters \<open>[-5, 5]\<close>: the
  coefficient of the linear fit is 125/129, which exceeds 0.9, and \<open>linear\<close> is the first
  entry of the catalog.
\<close>

theorem find_squares_linear:
  "find_model [(Fin 1, Fin 1), (Fin 2, Fin 4), (Fin 3, Fin 9), (Fin 4, Fin 16)] None =
     Inr \<lparr>mtype = Some ''linear'',
          mfn = (\<lambda>x. Some (js_add (Fin (- 5)) (js_mul x (Fin 5)))),
          params = [Fin (- 5), Fin 5],
          coeff = Some (Fin (125 / 129))\<rparr> \<and>
   js_gt (Fin (125 / 129)) (Fin 0.9)"
  by (simp add: find_model_def types_def lin1 Let_def coefficient_def js_defs)

lemma lin2: "linear_reg [(Fin 0, Fin 0), (Fin 0, Fin 1), (Fin 1, Fin 1)] = [Fin (1/2), Fin (1/2)]"
  by (simp add: linear_reg_def Let_def js_defs)

lemma p2: "polynomial [(Fin 0, Fin 0), (Fin 0, Fin 1), (Fin 1, Fin 1)] (Some 2) = Inl MatrixNotInvertible"
  by (simp add: polynomial_def transpose_mx_def product2_def inverse_mx_def js_pow_def is_int_def js_defs drop_nth_def upt_rec)

text \<open>
  Claim C2 as stated fails on \<open>[(0,0),(0,1),(1,1)]\<close> with the default threshold: the
  linear fit has the coefficient 1/4, the matrix of the quadratic fit is singular, and
  \<open>find\<close> ends with the error of \<open>inverse\<close>: it returns neither a model of the catalog
  nor the null model.
\<close>

theorem find_singular_fails:
  "find_model [(Fin 0, Fin 0), (Fin 0, Fin 1), (Fin 1, Fin 1)] None = Inl MatrixNotInvertible"
  by (simp add: find_model_def types_def lin2 p2 polynomial_default Let_def coefficient_def js_defs)

theorem find_first_qualifying_witness:
  "1 < length [(Fin 0, Fin 0), (Fin 0, Fin 1), (Fin 1, Fin 1)] \<and>
   select_first [(Fin 0, Fin 0), (Fin 0, Fin 1), (Fin 1, Fin 1)] (Fin 0.9) = Inl MatrixNotInvertible \<and>
   select_first [(Fin 1, Fin 3), (Fin 2, Fin 5), (Fin 3, Fin 7)] (Fin 0.9) =
     Inr (fitted (types ! 0) [(Fin 1, Fin 3), (Fin 2, Fin 5), (Fin 3, Fin 7)] [Fin 1, Fin 2])"
  using find_first_qualifying [of "[(Fin 0, Fin 0), (Fin 0, Fin 1), (Fin 1, Fin 1)]" None]
  by (simp add: find_model_def select_first_def r2_def types_def linear_reg_def lin2 p2 Let_def coefficient_def js_defs polynomial_default)

lemma draw_index_le:
  "to_index (js_floor (js_mul (random u) (of_len (Suc i)))) \<le> i"
proof -
  have u: "0 \<le> Rep_draw u" "Rep_draw u < 1" by (rule rep_draw_bounds)+
  have m: "js_mul (random u) (of_len (Suc i)) = Fin (Rep_draw u * real (Suc i))"
    using u by (auto simp: random_def of_len_def mk_fin_def mk_zero_def)
  have "Rep_draw u * real (Suc i) < 1 * real (Suc i)"
    using u by (intro mult_strict_right_mono) simp_all
  then have "\<lfloor>Rep_draw u * real (Suc i)\<rfloor> < int (Suc i)"
    by (simp add: floor_less_iff)
  then have "nat \<lfloor>Rep_draw u * real (Suc i)\<rfloor> \<le> i" by linarith
  then show ?thesis by (simp add: m to_index_def)
qed

lemma shuffle_loop_mset:
  "m < length a \<Longrightarrow> mset (shuffle_loop rnd k m a) = mset a"
proof (induction m arbitrary: k a)
  case 0
  then show ?case by simp
next
  case (Suc m)
  define j where "j = to_index (js_floor (js_mul (random (rnd k)) (of_len (Suc (Suc m)))))"
  have j: "j \<le> Suc m" unfolding j_def by (rule draw_index_le)
  with Suc.prems have jl: "j < length a" by simp
  have sw: "mset (a[Suc m := a ! j, j := a ! Suc m]) = mset a"
    using mset_swap [OF jl Suc.prems] .
  have "m < length (a[Suc m := a ! j, j := a ! Suc m])" using Suc.prems by simp
  from Suc.IH [OF this] sw show ?case
    by (simp add: j_def Let_def)
qed

lemma shuffle_loop_last_mset:
  "mset (shuffle_loop rnd k (length a - 1) a) = mset a"
proof (cases a)
  case Nil
  then show ?thesis by simp
next
  case (Cons x xs)
  then have "length a - 1 < length a" by simp
  then show ?thesis by (rule shuffle_loop_mset)
qed

text \<open>
  Claim C7. For every array and every sequence of draws, \<open>shuffle\<close> returns a new array
  (at an address that was free before the call) that is a permutation of the input: the
  same multiset of elements and the same length. The input array, like every array
  allocated before the call, is left as it was.
\<close>

theorem shuffle_permutation:
  "p < length h \<Longrightarrow>
     (\<exists>h' q. shuffle rnd h p = Some (h', q) \<and>
        q \<noteq> p \<and> q = length h \<and> length h' = Suc (length h) \<and>
        mset (h' ! q) = mset (h ! p) \<and>
        length (h' ! q) = length (h ! p) \<and>
        (\<forall>r < length h. h' ! r = h ! r))"
proof -
  assume p: "p < length h"
  have "mset (shuffle_loop rnd 0 (length (h ! p) - 1) (h ! p)) = mset (h ! p)"
    by (rule shuffle_loop_last_mset)
  moreover from this
  have "length (shuffle_loop rnd 0 (length (h ! p) - 1) (h ! p)) = length (h ! p)"
    by (rule mset_eq_length)
  ultimately show ?thesis using p
    by (simp add: shuffle_def Let_def nth_append)
qed

theorem shuffle_permutation_witness:
  "(0::nat) < length [[1::nat, 2, 3]] \<and>
   shuffle (\<lambda>k. Abs_draw 0) [[1::nat, 2, 3]] 0 = Some ([[1, 2, 3], [2, 3, 1]], 1)"
  using shuffle_permutation [of 0 "[[1::nat, 2, 3]]" "\<lambda>k. Abs_draw 0"]
  by (simp add: shuffle_def Let_def random_def Abs_draw_inverse of_len_def mk_fin_def mk_zero_def
      to_index_def numeral_3_eq_3 numeral_2_eq_2)

lemma foldl_total_fin:
  "foldl (\<lambda>total e. js_add total (snd e)) (Fin c) (fin_weights ws) = Fin (c + sum_list (map snd ws))"
  by (induction ws arbitrary: c) (auto simp: fin_weights_def add.assoc)

lemma total_weight_fin: "total_weight (fin_weights ws) = Fin (sum_list (map snd ws))"
  using foldl_total_fin [of 0 ws] by (simp add: total_weight_def)

lemma some_loop_pos:
  assumes "\<forall>e \<in> set ws. 0 \<le> snd e" and "c < \<rho>" and "\<rho> \<le> c + sum_list (map snd ws)"
  shows "\<exists>i < length ws. some_loop (fin_weights ws) (Fin \<rho>) (Fin c) = Some (fst (ws ! i)) \<and>
           0 < snd (ws ! i)"
  using assms
proof (induction ws arbitrary: c)
  case Nil
  then show ?case by simp
next
  case (Cons e ws)
  obtain k w where e: "e = (k, w)" by (cases e)
  show ?case
  proof (cases "\<rho> \<le> c + w")
    case True
    then have "some_loop (fin_weights (e # ws)) (Fin \<rho>) (Fin c) = Some k"
      by (simp add: e fin_weights_def)
    moreover from True Cons.prems(2) have "0 < w" by simp
    ultimately have "some_loop (fin_weights (e # ws)) (Fin \<rho>) (Fin c) = Some (fst ((e # ws) ! 0)) \<and>
        0 < snd ((e # ws) ! 0)"
      by (simp add: e)
    then show ?thesis by blast
  next
    case False
    have nn: "\<forall>e \<in> set ws. 0 \<le> snd e" using Cons.prems(1) by simp
    have lt: "c + w < \<rho>" using False by simp
    have le: "\<rho> \<le> (c + w) + sum_list (map snd ws)" using Cons.prems(3) by (simp add: e)
    from Cons.IH [OF nn lt le] obtain i where i: "i < length ws"
      "some_loop (fin_weights ws) (Fin \<rho>) (Fin (c + w)) = Some (fst (ws ! i))"
      "0 < snd (ws ! i)" by blast
    from False i(2) have "some_loop (fin_weights (e # ws)) (Fin \<rho>) (Fin c) = Some (fst ((e # ws) ! Suc i))"
      by (simp add: e fin_weights_def)
    moreover from i(3) have "0 < snd ((e # ws) ! Suc i)" by simp
    moreover from i(1) have "Suc i < length (e # ws)" by simp
    ultimately show ?thesis by blast
  qed
qed

lemma some_loop_fin:
  assumes nn: "\<forall>e \<in> set ws. 0 \<le> snd e" and ne: "ws \<noteq> []"
    and le: "\<rho> \<le> c + sum_list (map snd ws)"
  shows "\<exists>i < length ws. some_loop (fin_weights ws) (Fin \<rho>) (Fin c) = Some (fst (ws ! i)) \<and>
           (c < \<rho> \<longrightarrow> 0 < snd (ws ! i))"
proof (cases "c < \<rho>")
  case True
  from some_loop_pos [OF nn True le] show ?thesis by blast
next
  case False
  from ne obtain k w rest where ws: "ws = (k, w) # rest" by (cases ws) auto
  from nn ws have "0 \<le> w" by simp
  with False have "\<rho> \<le> c + w" by simp
  then have "some_loop (fin_weights ws) (Fin \<rho>) (Fin c) = Some (fst (ws ! 0))"
    by (simp add: ws fin_weights_def)
  with False ws show ?thesis by auto
qed

lemma weighted_fin:
  assumes nn: "\<forall>e \<in> set ws. 0 \<le> snd e" and pos: "0 < sum_list (map snd ws)"
    and cached: "cached = None \<or> cached = Some (total_weight (fin_weights ws))"
  shows "\<exists>i < length ws. fst (weighted cached (fin_weights ws) u) = Some (fst (ws ! i)) \<and>
           (0 < Rep_draw u \<longrightarrow> 0 < snd (ws ! i))"
proof -
  let ?T = "sum_list (map snd ws)"
  have u: "0 \<le> Rep_draw u" "Rep_draw u < 1" by (rule rep_draw_bounds)+
  have r: "js_mul (random u) (Fin ?T) = Fin (Rep_draw u * ?T)"
    using u pos by (auto simp: random_def mk_fin_def mk_zero_def)
  have "Rep_draw u * ?T \<le> 1 * ?T" using u pos by (intro mult_right_mono) simp_all
  then have le: "Rep_draw u * ?T \<le> 0 + ?T" by simp
  from pos have ne: "ws \<noteq> []" by auto
  from some_loop_fin [OF nn ne le] obtain i where i: "i < length ws"
    "some_loop (fin_weights ws) (Fin (Rep_draw u * ?T)) (Fin 0) = Some (fst (ws ! i))"
    "0 < Rep_draw u * ?T \<longrightarrow> 0 < snd (ws ! i)" by blast
  have t: "(case cached of Some t \<Rightarrow> t | None \<Rightarrow> total_weight (fin_weights ws)) = Fin ?T"
    using cached by (auto simp: total_weight_fin)
  have "fst (weighted cached (fin_weights ws) u) = Some (fst (ws ! i))"
    by (simp add: weighted_def Let_def t r i(2))
  moreover have "0 < Rep_draw u \<longrightarrow> 0 < snd (ws ! i)" using i(3) pos by simp
  ultimately show ?thesis using i(1) by blast
qed





lemma array_entries_fin:
  "array_entries (map Fin rs) = fin_weights (zip [0..<length rs] rs)"
  by (simp add: array_entries_def fin_weights_def zip_map2)

lemma sum_list_squares_pos:
  "cs \<noteq> [] \<Longrightarrow> \<forall>c \<in> set cs. 1 \<le> c \<Longrightarrow> 0 < sum_list (map (\<lambda>x. real_of_int (x * x)) cs)"
proof (induction cs)
  case Nil
  then show ?case by simp
next
  case (Cons c cs)
  then have c: "1 \<le> c" by simp
  then have "0 < real_of_int c" by simp
  then have "0 < real_of_int c * real_of_int c" by simp
  then have "0 < real_of_int (c * c)" by simp
  moreover have "0 \<le> sum_list (map (\<lambda>x. real_of_int (x * x)) cs)"
    by (rule sum_list_nonneg) auto
  ultimately show ?case by simp
qed

lemma weighted_squares:
  assumes "cs \<noteq> []" and "\<forall>c \<in> set cs. 1 \<le> c"
  shows "\<exists>x < length cs.
           fst (weighted None (array_entries (map (\<lambda>x. Fin (of_int (x * x))) cs)) u) = Some x"
proof -
  let ?rs = "map (\<lambda>x. real_of_int (x * x)) cs"
  let ?ws = "zip [0..<length ?rs] ?rs"
  have m: "map (\<lambda>x. Fin (of_int (x * x))) cs = map Fin ?rs" by simp
  have sn: "map snd ?ws = ?rs" by (simp add: map_snd_zip)
  have nn: "\<forall>e \<in> set ?ws. 0 \<le> snd e"
  proof
    fix e assume "e \<in> set ?ws"
    obtain a b where e: "e = (a, b)" by (cases e)
    with \<open>e \<in> set ?ws\<close> have "b \<in> set ?rs" by (auto dest: set_zip_rightD)
    then obtain c where "b = real_of_int (c * c)" by auto
    with e show "0 \<le> snd e" by simp
  qed
  have pos: "0 < sum_list (map snd ?ws)"
    unfolding sn using assms by (rule sum_list_squares_pos)
  from weighted_fin [OF nn pos, of None u] obtain i where
    i: "i < length ?ws" "fst (weighted None (fin_weights ?ws) u) = Some (fst (?ws ! i))"
    by auto
  from i(1) have "fst (?ws ! i) = i" by simp
  with i show ?thesis unfolding m array_entries_fin by auto
qed

lemma after_draw_ok:
  assumes "counters_ok n cs" and "x < n"
  shows "counters_ok n (after_draw cs x)"
proof -
  from assms have len: "length cs = n" and ge: "\<forall>c \<in> set cs. 1 \<le> c"
    by (simp_all add: counters_ok_def)
  let ?d = "cs[x := cs ! x - 1]"
  from assms len have "cs ! x \<in> set cs" by simp
  with ge have cx: "1 \<le> cs ! x" by blast
  with assms len have dx: "0 \<le> ?d ! x" by simp
  have d0: "\<forall>c \<in> set ?d. 0 \<le> c"
  proof
    fix c assume "c \<in> set ?d"
    then have "c = cs ! x - 1 \<or> c \<in> set cs" by (auto dest: set_update_subset_insert [THEN subsetD])
    with ge dx assms len show "0 \<le> c" by auto
  qed
  show ?thesis
  proof (cases "?d ! x \<le> 0")
    case True
    with d0 len show ?thesis by (auto simp: after_draw_def counters_ok_def Let_def)
  next
    case False
    have "\<forall>c \<in> set ?d. 1 \<le> c"
    proof
      fix c assume "c \<in> set ?d"
      then have "c = cs ! x - 1 \<or> c \<in> set cs" by (auto dest: set_update_subset_insert [THEN subsetD])
      with ge False assms len show "1 \<le> c" by auto
    qed
    with False len show ?thesis by (simp add: after_draw_def counters_ok_def Let_def)
  qed
qed

lemma smart_step:
  assumes n: "0 < n" and ident: "ident \<noteq> []"
    and ok: "counters_ok n (counters n ident C)"
  shows "\<exists>x < n. smart fresh u n (Some ident) C =
           (Some x, C(ident \<mapsto> after_draw (counters n ident C) x))"
proof -
  let ?cs = "counters n ident C"
  from ok n have ne: "?cs \<noteq> []" and ge: "\<forall>c \<in> set ?cs. 1 \<le> c" and len: "length ?cs = n"
    by (auto simp: counters_ok_def)
  from weighted_squares [OF ne ge, of u] obtain x where x: "x < length ?cs"
    "fst (weighted None (array_entries (map (\<lambda>x. Fin (of_int (x * x))) ?cs)) u) = Some x"
    by blast
  have "smart fresh u n (Some ident) C = (Some x, C(ident \<mapsto> after_draw ?cs x))"
    using ident x(2) unfolding smart_def after_draw_def counters_def [symmetric]
    by (simp add: Let_def)
  with x(1) len show ?thesis by auto
qed

lemma counters_init_ok: "C ident = None \<Longrightarrow> counters_ok n (counters n ident C)"
  by (simp add: counters_def counters_ok_def)

lemma smart_calls_ok:
  assumes n: "0 < n" and ident: "ident \<noteq> []"
  shows "counters_ok n (counters n ident C) \<Longrightarrow>
         counters_ok n (counters n ident (smart_calls fresh us n ident C)) \<and>
         (C ident \<noteq> None \<or> us \<noteq> [] \<longrightarrow> smart_calls fresh us n ident C ident \<noteq> None)"
proof (induction us arbitrary: C)
  case Nil
  then show ?case by simp
next
  case (Cons u us)
  from smart_step [OF n ident Cons.prems, of fresh u] obtain x where x: "x < n"
    "smart fresh u n (Some ident) C = (Some x, C(ident \<mapsto> after_draw (counters n ident C) x))"
    by blast
  let ?C = "C(ident \<mapsto> after_draw (counters n ident C) x)"
  have ok': "counters_ok n (counters n ident ?C)"
    using after_draw_ok [OF Cons.prems x(1)] by (simp add: counters_def)
  note IH = Cons.IH [OF ok']
  from IH have 1: "counters_ok n (counters n ident (smart_calls fresh us n ident ?C))"
    by (rule conjunct1)
  have "?C ident \<noteq> None" by simp
  with IH have 2: "smart_calls fresh us n ident ?C ident \<noteq> None" by blast
  have 3: "smart_calls fresh (u # us) n ident C = smart_calls fresh us n ident ?C"
    by (simp add: x(2))
  show ?case unfolding 3 using 1 2 by blast
qed

text \<open>
  Claim C6. For \<open>n >= 1\<close> and a non-empty identifier with no state yet, after every
  non-empty sequence of calls \<open>smart(n, id)\<close> the state of the identifier is an array of
  \<open>n\<close> counters, each at least 1. Each further call returns an index \<open>x < n\<close> and leaves
  the counters as \<open>after_draw\<close> describes: counter \<open>x\<close> decremented by 1, and every
  counter incremented by 1 when that made it \<open><= 0\<close>.
\<close>

theorem smart_counters_positive:
  assumes "0 < n" and "ident \<noteq> []" and "C ident = None"
  shows "(us \<noteq> [] \<longrightarrow>
           (\<exists>cs. smart_calls fresh us n ident C ident = Some cs \<and>
                 length cs = n \<and> (\<forall>c \<in> set cs. 1 \<le> c))) \<and>
         (\<exists>x < n. smart fresh u n (Some ident) (smart_calls fresh us n ident C) =
            (Some x,
             (smart_calls fresh us n ident C)
               (ident \<mapsto> after_draw (counters n ident (smart_calls fresh us n ident C)) x)))"
proof -
  let ?C = "smart_calls fresh us n ident C"
  from smart_calls_ok [OF assms(1,2) counters_init_ok [of C ident n, OF assms(3)], of fresh us]
  have ok: "counters_ok n (counters n ident ?C)" and some: "us \<noteq> [] \<longrightarrow> ?C ident \<noteq> None"
    by blast+
  have "us \<noteq> [] \<longrightarrow> (\<exists>cs. ?C ident = Some cs \<and> length cs = n \<and> (\<forall>c \<in> set cs. 1 \<le> c))"
  proof
    assume "us \<noteq> []"
    with some obtain cs where cs: "?C ident = Some cs" by auto
    with ok have "counters_ok n cs" by (simp add: counters_def)
    with cs show "\<exists>cs. ?C ident = Some cs \<and> length cs = n \<and> (\<forall>c \<in> set cs. 1 \<le> c)"
      by (simp add: counters_ok_def)
  qed
  moreover note smart_step [OF assms(1,2) ok, of fresh u]
  ultimately show ?thesis by blast
qed

lemma weighted_ones_zero: "fst (weighted None (array_entries [Fin 1, Fin 1]) (Abs_draw 0)) = Some 0"
  by (simp add: weighted_def total_weight_def array_entries_def random_def
      Abs_draw_inverse Let_def mk_fin_def mk_zero_def upt_rec)

lemma smart_call_1: "smart ''f'' (Abs_draw 0) 2 (Some ''s'') Map.empty = (Some 0, [''s'' \<mapsto> [1, 2]])"
  by (simp add: smart_def weighted_ones_zero numeral_2_eq_2 Let_def)

lemma weighted_1_4_zero: "fst (weighted None (array_entries [Fin 1, Fin 4]) (Abs_draw 0)) = Some 0"
  by (simp add: weighted_def total_weight_def array_entries_def random_def
      Abs_draw_inverse Let_def mk_fin_def mk_zero_def upt_rec)

lemma smart_call_2: "smart ''f'' (Abs_draw 0) 2 (Some ''s'') [''s'' \<mapsto> [1, 2]] = (Some 0, [''s'' \<mapsto> [1, 3]])"
  by (simp add: smart_def weighted_1_4_zero Let_def)

lemma smart_first_call:
  "smart_calls ''f'' [Abs_draw 0] 2 ''s'' Map.empty = [''s'' \<mapsto> [1, 2]]"
  by (simp add: smart_call_1)

theorem smart_counters_positive_witness:
  "(0::nat) < 2 \<and> ''s'' \<noteq> [] \<and> (Map.empty :: smart_cache) ''s'' = None \<and>
   (\<exists>cs. smart_calls ''f'' [Abs_draw 0] 2 ''s'' Map.empty ''s'' = Some cs \<and> cs = [1, 2] \<and>
         length cs = 2 \<and> (\<forall>c \<in> set cs. 1 \<le> c)) \<and>
   smart ''f'' (Abs_draw 0) 2 (Some ''s'') (smart_calls ''f'' [Abs_draw 0] 2 ''s'' Map.empty) =
     (Some 0, [''s'' \<mapsto> after_draw [1, 2] 0]) \<and>
   after_draw [1, 2] 0 = [1, 3]"
proof -
  have a: "(0::nat) < 2" "''s'' \<noteq> []" "(Map.empty :: smart_cache) ''s'' = None"
    by simp_all
  note t = smart_counters_positive [OF a, of "[Abs_draw 0]" "''f''" "Abs_draw 0"]
  have ne: "[Abs_draw 0] \<noteq> []" by simp
  from t ne obtain cs where cs: "smart_calls ''f'' [Abs_draw 0] 2 ''s'' Map.empty ''s'' = Some cs"
    "length cs = 2" "\<forall>c \<in> set cs. 1 \<le> c" by blast
  from cs(1) [unfolded smart_first_call] have "cs = [1, 2]" by simp
  with cs have 1: "\<exists>cs. smart_calls ''f'' [Abs_draw 0] 2 ''s'' Map.empty ''s'' = Some cs \<and>
      cs = [1, 2] \<and> length cs = 2 \<and> (\<forall>c \<in> set cs. 1 \<le> c)" by blast
  have 2: "after_draw [1, 2] 0 = [1, 3]" by (simp add: after_draw_def)
  have 3: "smart ''f'' (Abs_draw 0) 2 (Some ''s'') (smart_calls ''f'' [Abs_draw 0] 2 ''s'' Map.empty) =
     (Some 0, [''s'' \<mapsto> after_draw [1, 2] 0])"
    unfolding smart_first_call 2 by (simp add: smart_call_2)
  from a 1 2 3 show ?thesis by blast
qed

end
